theory Spec2Isabelle
  imports Main
begin

section \<open>Data model of TicTacToeApp.tsx\<close>

text \<open>
  \<^verbatim>\<open>type Player = 'X' | 'O'\<close> and \<^verbatim>\<open>type Cell = Player | null\<close>. The constructor
  names carry a prefix because \<open>O\<close> is the relation composition of HOL.
\<close>

datatype player = PlayerX | PlayerO

type_synonym cell = "player option"

text \<open>
  What the expression \<^verbatim>\<open>board[i]\<close> evaluates to: a mark, \<^verbatim>\<open>null\<close>, or
  \<^verbatim>\<open>undefined\<close> when \<open>i\<close> is not an index of the array.
\<close>

datatype slot = Undefined | Null | Mark player

type_synonym line = "int \<times> int \<times> int"

datatype game_status =
    IN_PROGRESS player
  | WON player line
  | DRAW

definition at_index :: "cell list \<Rightarrow> int \<Rightarrow> slot" where
  "at_index board i =
     (if 0 \<le> i \<and> i < int (length board)
      then (case board ! nat i of None \<Rightarrow> Null | Some p \<Rightarrow> Mark p)
      else Undefined)"

definition WIN_LINES :: "line list" where
  "WIN_LINES =
     [(0, 1, 2), (3, 4, 5), (6, 7, 8),
      (0, 3, 6), (1, 4, 7), (2, 5, 8),
      (0, 4, 8), (2, 4, 6)]"

section \<open>computeStatus\<close>

text \<open>
  The \<^verbatim>\<open>for (const line of WIN_LINES)\<close> loop with its early return: the test
  \<^verbatim>\<open>board[a] && board[a] === board[b] && board[a] === board[c]\<close> needs a truthy
  \<^verbatim>\<open>board[a]\<close>, which is a mark. \<open>None\<close> is the loop running to its end.
\<close>

fun scan_lines :: "cell list \<Rightarrow> line list \<Rightarrow> game_status option" where
  "scan_lines board [] = None"
| "scan_lines board ((a, b, c) # rest) =
     (case at_index board a of
        Mark w \<Rightarrow>
          if at_index board a = at_index board b \<and> at_index board a = at_index board c
          then Some (WON w (a, b, c))
          else scan_lines board rest
      | _ \<Rightarrow> scan_lines board rest)"

definition computeStatus :: "cell list \<Rightarrow> player \<Rightarrow> game_status" where
  "computeStatus board nextPlayer =
     (case scan_lines board WIN_LINES of
        Some won \<Rightarrow> won
      | None \<Rightarrow>
          if list_all (\<lambda>c. c \<noteq> None) board then DRAW else IN_PROGRESS nextPlayer)"

fun otherPlayer :: "player \<Rightarrow> player" where
  "otherPlayer p = (if p = PlayerX then PlayerO else PlayerX)"

section \<open>Component state and its handlers\<close>

text \<open>
  The score is \<^verbatim>\<open>{ X: number; O: number }\<close>. A count is modelled as an integer: the
  whole numbers among the finite values of a JavaScript number. These are the integers of
  magnitude up to \<open>2 ^ 53\<close>, the even integers up to \<open>2 ^ 54\<close>, the multiples of four up
  to \<open>2 ^ 55\<close>, and so on.
\<close>

record score =
  X_wins :: int
  O_wins :: int

text \<open>The three \<^verbatim>\<open>useState\<close> cells of the component.\<close>

record game =
  board :: "cell list"
  nextPlayer :: player
  score :: score

text \<open>
  The \<^verbatim>\<open>useState\<close> initialisers: \<^verbatim>\<open>Array.from({ length: 9 }, () => null)\<close>,
  \<^verbatim>\<open>'X'\<close> and \<^verbatim>\<open>{ X: 0, O: 0 }\<close>.
\<close>

definition initial_game :: game where
  "initial_game =
     \<lparr>board = replicate 9 None, nextPlayer = PlayerX, score = \<lparr>X_wins = 0, O_wins = 0\<rparr>\<rparr>"

text \<open>
  The expression \<^verbatim>\<open>n + 1\<close> on such a number: the sum is rounded to the nearest
  number the format holds, a tie going to the one with the even significand.
  \<^item> From \<open>- (2 ^ 53)\<close> up to \<open>2 ^ 53 - 1\<close> the sum is held exactly.
  \<^item> Beyond that and below \<open>2 ^ 54\<close> in magnitude, \<open>n\<close> is even and \<open>n + 1\<close> is not held;
    it lies midway between \<open>n\<close> and \<open>n + 2\<close>, whose significands are \<open>n div 2\<close> and its
    neighbour (for \<open>n + 2 = 2 ^ 54\<close> the even \<open>2 ^ 52\<close>), so the result is \<open>n\<close> when
    \<open>n div 2\<close> is even and \<open>n + 2\<close> otherwise.
  \<^item> From \<open>2 ^ 54\<close> on in magnitude, \<open>n\<close> is a multiple of four and the nearest number to
    \<open>n + 1\<close> is \<open>n\<close>; at \<open>- (2 ^ 54)\<close> the sum is midway to \<open>- (2 ^ 54) + 2\<close>, whose
    significand is odd, and the result is \<open>n\<close> again.
\<close>

definition js_add_one :: "int \<Rightarrow> int" where
  "js_add_one n =
     (if - (2 ^ 53) \<le> n \<and> n < 2 ^ 53 then n + 1
      else if - (2 ^ 54) < n \<and> n < 2 ^ 54 then (if even (n div 2) then n else n + 2)
      else n)"

text \<open>
  The updater \<^verbatim>\<open>(prev) => ({ ...prev, [winner]: prev[winner] + 1 })\<close> given to
  \<^verbatim>\<open>setScore\<close>.
\<close>

definition add_win :: "player \<Rightarrow> score \<Rightarrow> score" where
  "add_win winner prev =
     (case winner of
        PlayerX \<Rightarrow> prev\<lparr>X_wins := js_add_one (X_wins prev)\<rparr>
      | PlayerO \<Rightarrow> prev\<lparr>O_wins := js_add_one (O_wins prev)\<rparr>)"

text \<open>
  \<^verbatim>\<open>handleSquareClick(index)\<close>. The \<^verbatim>\<open>status\<close> it reads is the memoised
  \<^verbatim>\<open>computeStatus(board, nextPlayer)\<close> of the current state. Both guards return
  without any state setter being called. The write \<^verbatim>\<open>newBoard[index] = ...\<close> is only
  reached when \<^verbatim>\<open>board[index]\<close> is \<^verbatim>\<open>null\<close>, hence at an index of the array. Both
  branches of the final \<^verbatim>\<open>if\<close> call \<^verbatim>\<open>setNextPlayer(upcomingNext)\<close>.
\<close>

definition handleSquareClick :: "int \<Rightarrow> game \<Rightarrow> game" where
  "handleSquareClick index s =
     (if at_index (board s) index \<noteq> Null then s
      else
        (case computeStatus (board s) (nextPlayer s) of
           IN_PROGRESS current \<Rightarrow>
             (let newBoard = (board s)[nat index := Some current];
                  upcomingNext = otherPlayer current;
                  newStatus = computeStatus newBoard upcomingNext
              in \<lparr>board = newBoard,
                  nextPlayer = upcomingNext,
                  score = (case newStatus of
                             WON winner ln \<Rightarrow> add_win winner (score s)
                           | _ \<Rightarrow> score s)\<rparr>)
         | _ \<Rightarrow> s))"

text \<open>
  \<^verbatim>\<open>resetRound(startingPlayer = nextPlayer)\<close>: \<open>None\<close> is the call without an
  argument.
\<close>

definition resetRound :: "player option \<Rightarrow> game \<Rightarrow> game" where
  "resetRound startingPlayer s =
     s\<lparr>board := replicate 9 None,
       nextPlayer := (case startingPlayer of None \<Rightarrow> nextPlayer s | Some p \<Rightarrow> p)\<rparr>"


section \<open>Loading the score\<close>

text \<open>
  The values \<^verbatim>\<open>JSON.parse\<close> returns. An object is the list of its own properties,
  each name once; a number is a whole number, as the counts are.
\<close>

datatype js_value =
    JNull
  | JBool bool
  | JNumber int
  | JString string
  | JArray "js_value list"
  | JObject "(string \<times> js_value) list"

text \<open>
  What \<^verbatim>\<open>localStorage.getItem('ttt_score')\<close> does: it throws when storage is
  unavailable, returns \<^verbatim>\<open>null\<close> when the key is absent, or returns the stored text.
\<close>

datatype storage_read = StorageError | NoItem | Item string

text \<open>
  \<^verbatim>\<open>parsed.X\<close> and \<^verbatim>\<open>parsed.O\<close> on a value other than \<^verbatim>\<open>null\<close>: only an object
  can have such a property; \<open>None\<close> is \<^verbatim>\<open>undefined\<close>.
\<close>

fun member_of :: "js_value \<Rightarrow> string \<Rightarrow> js_value option" where
  "member_of (JObject props) key = map_of props key"
| "member_of _ key = None"

text \<open>\<^verbatim>\<open>typeof v === 'number' ? v : 0\<close>\<close>

fun number_or_zero :: "js_value option \<Rightarrow> int" where
  "number_or_zero (Some (JNumber n)) = n"
| "number_or_zero _ = 0"

text \<open>
  The mount effect. \<^verbatim>\<open>JSON.parse\<close> belongs to the platform and is a parameter:
  \<open>None\<close> is its \<^verbatim>\<open>SyntaxError\<close>. Every exception inside the \<^verbatim>\<open>try\<close> block ends
  in the empty \<^verbatim>\<open>catch\<close>, so \<^verbatim>\<open>setScore\<close> is not called: a failing
  \<^verbatim>\<open>getItem\<close>, a failing parse, and the \<^verbatim>\<open>TypeError\<close> of reading a property of
  \<^verbatim>\<open>null\<close>. An empty text is falsy and skips the block.
\<close>

definition load_effect :: "(string \<Rightarrow> js_value option) \<Rightarrow> storage_read \<Rightarrow> game \<Rightarrow> game" where
  "load_effect JSON_parse stored s =
     (case stored of
        StorageError \<Rightarrow> s
      | NoItem \<Rightarrow> s
      | Item raw \<Rightarrow>
          if raw = [] then s
          else
            (case JSON_parse raw of
               None \<Rightarrow> s
             | Some JNull \<Rightarrow> s
             | Some parsed \<Rightarrow>
                 s\<lparr>score := \<lparr>X_wins = number_or_zero (member_of parsed ''X''),
                              O_wins = number_or_zero (member_of parsed ''O'')\<rparr>\<rparr>))"

text \<open>
  The effect has no dependencies: it runs once, on the state the initialisers made. Its
  result is the score the component starts from.
\<close>

definition loadScore :: "(string \<Rightarrow> js_value option) \<Rightarrow> storage_read \<Rightarrow> score" where
  "loadScore JSON_parse stored = score (load_effect JSON_parse stored initial_game)"

section \<open>Sequences of operations\<close>

text \<open>
  The component after mounting. The load is not an operation that can be asked for again:
  with the dependency list \<^verbatim>\<open>[]\<close> it runs once, before any user event.
\<close>

definition mount :: "(string \<Rightarrow> js_value option) \<Rightarrow> storage_read \<Rightarrow> game" where
  "mount JSON_parse stored = load_effect JSON_parse stored initial_game"




text \<open>Play alone: a sequence of clicked squares.\<close>

definition play :: "game \<Rightarrow> int list \<Rightarrow> game" where
  "play s moves = foldl (\<lambda>g index. handleSquareClick index g) s moves"

section \<open>The wording of the specification\<close>

text \<open>
  A winning line is complete when its three cells are non-empty and equal. This predicate
  follows the specification's sentence, on the cells of the board read by position; it is
  compared below with what the loop of \<open>computeStatus\<close> tests.
\<close>

definition line_complete :: "cell list \<Rightarrow> line \<Rightarrow> bool" where
  "line_complete cells l =
     (case l of (a, b, c) \<Rightarrow>
        cells ! nat a \<noteq> None \<and> cells ! nat a = cells ! nat b \<and> cells ! nat a = cells ! nat c)"



text \<open>The three indices of a line are indices of the board.\<close>

definition in_range :: "cell list \<Rightarrow> line \<Rightarrow> bool" where
  "in_range b l =
     (case l of (x, y, z) \<Rightarrow>
        0 \<le> x \<and> x < int (length b) \<and> 0 \<le> y \<and> y < int (length b) \<and> 0 \<le> z \<and> z < int (length b))"

section \<open>Sample boards and states\<close>

text \<open>
  Boards and states for the concrete runs: a board with two complete rows, the drawn
  board of the specification's draw scenario, a board in play, and states around them.
\<close>

definition sample_board :: "cell list" where
  "sample_board =
     [Some PlayerX, Some PlayerX, Some PlayerX,
      Some PlayerO, Some PlayerO, Some PlayerO,
      None, None, None]"

definition draw_board :: "cell list" where
  "draw_board =
     [Some PlayerX, Some PlayerO, Some PlayerX,
      Some PlayerX, Some PlayerO, Some PlayerO,
      Some PlayerO, Some PlayerX, Some PlayerX]"

definition open_board :: "cell list" where
  "open_board =
     [Some PlayerX, Some PlayerO, None,
      None, Some PlayerX, None,
      None, None, Some PlayerO]"

definition won_game :: game where
  "won_game =
     \<lparr>board = [Some PlayerX, Some PlayerX, Some PlayerX,
               Some PlayerO, Some PlayerO, None,
               None, None, None],
      nextPlayer = PlayerO, score = \<lparr>X_wins = 1, O_wins = 0\<rparr>\<rparr>"

definition drawn_game :: game where
  "drawn_game = \<lparr>board = draw_board, nextPlayer = PlayerO, score = \<lparr>X_wins = 0, O_wins = 0\<rparr>\<rparr>"

definition open_game :: game where
  "open_game = \<lparr>board = open_board, nextPlayer = PlayerX, score = \<lparr>X_wins = 2, O_wins = 1\<rparr>\<rparr>"

definition pre_win_game :: game where
  "pre_win_game =
     \<lparr>board = [Some PlayerX, Some PlayerX, None,
               Some PlayerO, Some PlayerO, None,
               None, None, None],
      nextPlayer = PlayerX, score = \<lparr>X_wins = 0, O_wins = 0\<rparr>\<rparr>"

definition pre_draw_game :: game where
  "pre_draw_game =
     \<lparr>board = [Some PlayerX, Some PlayerO, Some PlayerX,
               Some PlayerX, Some PlayerO, Some PlayerO,
               Some PlayerO, Some PlayerX, None],
      nextPlayer = PlayerX, score = \<lparr>X_wins = 0, O_wins = 0\<rparr>\<rparr>"

text \<open>
  A finite table in the place of \<^verbatim>\<open>JSON.parse\<close>, for the concrete runs below: each
  listed text with the value \<^verbatim>\<open>JSON.parse\<close> returns for it. A text outside the table is
  rejected, as \<^verbatim>\<open>JSON.parse\<close> rejects the text \<^verbatim>\<open>not json\<close>.
\<close>

definition sample_parse :: "string \<Rightarrow> js_value option" where
  \<open>sample_parse =
     map_of
       [(''{"X":3,"O":"many"}'', JObject [(''X'', JNumber 3), (''O'', JString ''many'')]),
        (''{"X":9007199254740992,"O":0}'',
           JObject [(''X'', JNumber 9007199254740992), (''O'', JNumber 0)]),
        (''{"O":4}'', JObject [(''O'', JNumber 4)]),
        (''null'', JNull),
        (''[1,2]'', JArray [JNumber 1, JNumber 2])]\<close>

text \<open>
  The state after loading the record \<^verbatim>\<open>{"X":9007199254740992,"O":0}\<close>, whose count for
  X is \<open>2 ^ 53\<close>, and the clicks 0, 3, 1, 4: X wins by a click on square 2.
\<close>

definition big_count_game :: game where
  "big_count_game =
     \<lparr>board = [Some PlayerX, Some PlayerX, None,
               Some PlayerO, Some PlayerO, None,
               None, None, None],
      nextPlayer = PlayerX, score = \<lparr>X_wins = 9007199254740992, O_wins = 0\<rparr>\<rparr>"


section \<open>Complete lines of a board\<close>

text \<open>A cell index lies on a line.\<close>

definition on_line :: "int \<Rightarrow> line \<Rightarrow> bool" where
  "on_line i l = (case l of (a, b, c) \<Rightarrow> i = a \<or> i = b \<or> i = c)"

text \<open>The winning lines that are complete on a board, in the order of \<open>WIN_LINES\<close>.\<close>

definition complete_lines :: "cell list \<Rightarrow> line list" where
  "complete_lines cells = filter (line_complete cells) WIN_LINES"

text \<open>
  What holds of every state of a round played from the empty board: the board has nine
  cells; the player who moved last has as many marks as the player to move, or one more;
  and one cell lies on every complete line.
\<close>

definition round_inv :: "game \<Rightarrow> bool" where
  "round_inv s \<longleftrightarrow>
     length (board s) = 9 \<and>
     (count_list (board s) (Some (otherPlayer (nextPlayer s))) = count_list (board s) (Some (nextPlayer s)) \<or>
      count_list (board s) (Some (otherPlayer (nextPlayer s))) = count_list (board s) (Some (nextPlayer s)) + 1) \<and>
     (\<exists>i. \<forall>l\<in>set WIN_LINES. line_complete (board s) l \<longrightarrow> on_line i l)"

text \<open>Nine clicks whose last one completes the top row and the left column together.\<close>

definition two_lines_moves :: "int list" where
  "two_lines_moves = [1, 4, 2, 5, 3, 7, 6, 8, 0]"

section \<open>The loop over the winning lines\<close>

lemma scan_lines_None:
  "\<forall>l\<in>set ls. in_range b l \<Longrightarrow> scan_lines b ls = None \<longleftrightarrow> (\<forall>l\<in>set ls. \<not> line_complete b l)"
proof (induction ls)
  case Nil
  show ?case by simp
next
  case (Cons l ls)
  obtain x y z where l: "l = (x, y, z)" by (cases l) auto
  from Cons.prems have r: "0 \<le> x" "x < int (length b)" "0 \<le> y" "y < int (length b)" "0 \<le> z" "z < int (length b)"
    by (auto simp: l in_range_def)
  from Cons have IH: "scan_lines b ls = None \<longleftrightarrow> (\<forall>l\<in>set ls. \<not> line_complete b l)" by simp
  show ?case
    using r IH by (auto simp: l line_complete_def at_index_def split: slot.splits option.splits)
qed

lemma WIN_LINES_in_range: "length b = 9 \<Longrightarrow> \<forall>l\<in>set WIN_LINES. in_range b l"
  by (simp add: WIN_LINES_def in_range_def)

lemma scan_lines_WON: "scan_lines b ls = Some st \<Longrightarrow> \<exists>w l. st = WON w l \<and> l \<in> set ls"
  by (induction b ls rule: scan_lines.induct) (auto split: slot.splits if_splits)

lemma scan_lines_Some:
  "\<forall>l\<in>set ls. in_range b l \<Longrightarrow>
   scan_lines b ls = Some st \<longleftrightarrow>
     (\<exists>k<length ls. line_complete b (ls ! k) \<and> (\<forall>j<k. \<not> line_complete b (ls ! j)) \<and>
        (\<exists>w. b ! nat (fst (ls ! k)) = Some w \<and> st = WON w (ls ! k)))"
proof (induction ls)
  case Nil
  show ?case by simp
next
  case (Cons l ls)
  obtain x y z where l: "l = (x, y, z)" by (cases l) auto
  from Cons.prems have r: "0 \<le> x" "x < int (length b)" "0 \<le> y" "y < int (length b)" "0 \<le> z" "z < int (length b)"
    by (auto simp: l in_range_def)
  from Cons have IH: "scan_lines b ls = Some st \<longleftrightarrow>
     (\<exists>k<length ls. line_complete b (ls ! k) \<and> (\<forall>j<k. \<not> line_complete b (ls ! j)) \<and>
        (\<exists>w. b ! nat (fst (ls ! k)) = Some w \<and> st = WON w (ls ! k)))" by simp
  show ?case
  proof (cases "line_complete b l")
    case True
    then obtain w where w: "b ! nat x = Some w" "b ! nat y = Some w" "b ! nat z = Some w"
      by (auto simp: l line_complete_def)
    have s: "scan_lines b (l # ls) = Some (WON w l)"
      using r w by (simp add: l at_index_def)
    show ?thesis
    proof
      assume "scan_lines b (l # ls) = Some st"
      then have "st = WON w l" using s by simp
      then show "\<exists>k<length (l # ls). line_complete b ((l # ls) ! k) \<and> (\<forall>j<k. \<not> line_complete b ((l # ls) ! j)) \<and>
        (\<exists>w. b ! nat (fst ((l # ls) ! k)) = Some w \<and> st = WON w ((l # ls) ! k))"
        using True w by (intro exI[of _ 0]) (simp add: l)
    next
      assume "\<exists>k<length (l # ls). line_complete b ((l # ls) ! k) \<and> (\<forall>j<k. \<not> line_complete b ((l # ls) ! j)) \<and>
        (\<exists>w. b ! nat (fst ((l # ls) ! k)) = Some w \<and> st = WON w ((l # ls) ! k))"
      then obtain k w' where k: "k < length (l # ls)" "\<forall>j<k. \<not> line_complete b ((l # ls) ! j)"
        "b ! nat (fst ((l # ls) ! k)) = Some w'" "st = WON w' ((l # ls) ! k)" by blast
      have "k = 0"
      proof (rule ccontr)
        assume "k \<noteq> 0"
        then have "0 < k" by simp
        with k(2) have "\<not> line_complete b ((l # ls) ! 0)" by blast
        with True show False by simp
      qed
      with k w have "st = WON w l" by (simp add: l)
      with s show "scan_lines b (l # ls) = Some st" by simp
    qed
  next
    case False
    have s: "scan_lines b (l # ls) = scan_lines b ls"
      using r False by (auto simp: l line_complete_def at_index_def split: slot.splits option.splits)
    show ?thesis
    proof
      assume "scan_lines b (l # ls) = Some st"
      then have "scan_lines b ls = Some st" using s by simp
      then obtain k w where k: "k < length ls" "line_complete b (ls ! k)" "\<forall>j<k. \<not> line_complete b (ls ! j)"
        "b ! nat (fst (ls ! k)) = Some w" "st = WON w (ls ! k)" using IH by blast
      have "\<forall>j<Suc k. \<not> line_complete b ((l # ls) ! j)"
        using k(3) False by (auto simp: nth_Cons split: nat.splits)
      with k show "\<exists>k<length (l # ls). line_complete b ((l # ls) ! k) \<and> (\<forall>j<k. \<not> line_complete b ((l # ls) ! j)) \<and>
        (\<exists>w. b ! nat (fst ((l # ls) ! k)) = Some w \<and> st = WON w ((l # ls) ! k))"
        by (intro exI[of _ "Suc k"]) simp
    next
      assume "\<exists>k<length (l # ls). line_complete b ((l # ls) ! k) \<and> (\<forall>j<k. \<not> line_complete b ((l # ls) ! j)) \<and>
        (\<exists>w. b ! nat (fst ((l # ls) ! k)) = Some w \<and> st = WON w ((l # ls) ! k))"
      then obtain k w where k: "k < length (l # ls)" "line_complete b ((l # ls) ! k)" "\<forall>j<k. \<not> line_complete b ((l # ls) ! j)"
        "b ! nat (fst ((l # ls) ! k)) = Some w" "st = WON w ((l # ls) ! k)" by blast
      from k(2) False obtain k' where k': "k = Suc k'" by (cases k) auto
      have "\<forall>j<k'. \<not> line_complete b (ls ! j)"
      proof (intro allI impI)
        fix j assume "j < k'"
        then have "Suc j < k" using k' by simp
        with k(3) have "\<not> line_complete b ((l # ls) ! Suc j)" by blast
        then show "\<not> line_complete b (ls ! j)" by simp
      qed
      with k k' have "scan_lines b ls = Some st" using IH by auto
      with s show "scan_lines b (l # ls) = Some st" by simp
    qed
  qed
qed

lemma computeStatus_WON_scan:
  "computeStatus b np = WON w l \<longleftrightarrow> scan_lines b WIN_LINES = Some (WON w l)"
  by (auto simp: computeStatus_def split: option.splits dest: scan_lines_WON)

lemma computeStatus_IN_PROGRESS: "computeStatus b p = IN_PROGRESS r \<Longrightarrow> r = p"
  by (auto simp: computeStatus_def split: option.splits if_splits dest: scan_lines_WON)

lemma list_all_nth9:
  "length (b::cell list) = 9 \<Longrightarrow> list_all (\<lambda>c. c \<noteq> None) b \<longleftrightarrow> (\<forall>i<9. b ! i \<noteq> None)"
  by (simp add: list_all_length del: not_None_eq)

lemma all_less_9: "(\<forall>i<9::nat. P i) \<longleftrightarrow> P 0 \<and> P 1 \<and> P 2 \<and> P 3 \<and> P 4 \<and> P 5 \<and> P 6 \<and> P 7 \<and> P 8"
proof -
  have e: "\<And>i::nat. i < 9 \<longleftrightarrow> i = 0 \<or> i = 1 \<or> i = 2 \<or> i = 3 \<or> i = 4 \<or> i = 5 \<or> i = 6 \<or> i = 7 \<or> i = 8"
    by arith
  show ?thesis unfolding e by (simp only: imp_disjL all_conj_distrib simp_thms)
qed

section \<open>Claims about computeStatus\<close>

text \<open>
  C1. On a board of nine cells, \<open>computeStatus\<close> returns \<open>WON\<close> exactly when some winning
  line has three equal non-empty cells. The line it returns is the first complete one in
  the order of \<open>WIN_LINES\<close> (rows from the top, columns from the left, the diagonal from
  the top left, the diagonal from the top right), and the winner is the mark on that line.
\<close>

theorem computeStatus_won:
  assumes "length b = 9"
  shows "WIN_LINES =
           [(0, 1, 2), (3, 4, 5), (6, 7, 8), (0, 3, 6), (1, 4, 7), (2, 5, 8), (0, 4, 8), (2, 4, 6)] \<and>
         ((\<exists>w l. computeStatus b np = WON w l) \<longleftrightarrow> (\<exists>l\<in>set WIN_LINES. line_complete b l)) \<and>
         (\<forall>w l. computeStatus b np = WON w l \<longleftrightarrow>
            (\<exists>k<8. l = WIN_LINES ! k \<and> line_complete b l \<and>
               (\<forall>j<k. \<not> line_complete b (WIN_LINES ! j)) \<and> b ! nat (fst l) = Some w))"
proof (intro conjI allI)
  show "WIN_LINES =
      [(0, 1, 2), (3, 4, 5), (6, 7, 8), (0, 3, 6), (1, 4, 7), (2, 5, 8), (0, 4, 8), (2, 4, 6)]"
    by (simp add: WIN_LINES_def)
next
  have len: "length WIN_LINES = 8" by (simp add: WIN_LINES_def)
  note S = scan_lines_Some [OF WIN_LINES_in_range [OF assms], unfolded len]
  {
    fix w l
    show "computeStatus b np = WON w l \<longleftrightarrow>
       (\<exists>k<8. l = WIN_LINES ! k \<and> line_complete b l \<and>
          (\<forall>j<k. \<not> line_complete b (WIN_LINES ! j)) \<and> b ! nat (fst l) = Some w)"
      unfolding computeStatus_WON_scan S by auto
  }
  have "(\<exists>w l. computeStatus b np = WON w l) \<longleftrightarrow> scan_lines b WIN_LINES \<noteq> None"
    unfolding computeStatus_WON_scan using scan_lines_WON [of b WIN_LINES] by fastforce
  then show "(\<exists>w l. computeStatus b np = WON w l) \<longleftrightarrow> (\<exists>l\<in>set WIN_LINES. line_complete b l)"
    using scan_lines_None [OF WIN_LINES_in_range [OF assms]] by simp
qed

theorem computeStatus_won_witness:
  "length sample_board = 9 \<and> line_complete sample_board (0, 1, 2) \<and>
   line_complete sample_board (3, 4, 5) \<and>
   computeStatus sample_board PlayerO = WON PlayerX (0, 1, 2)"
proof -
  have n: "length sample_board = 9" by (simp add: sample_board_def)
  have a: "line_complete sample_board (0, 1, 2)" "line_complete sample_board (3, 4, 5)"
    by (simp_all add: line_complete_def sample_board_def)
  have "\<exists>k<8::nat. (0, 1, 2) = WIN_LINES ! k \<and> line_complete sample_board (0, 1, 2) \<and>
          (\<forall>j<k. \<not> line_complete sample_board (WIN_LINES ! j)) \<and>
          sample_board ! nat (fst ((0, 1, 2)::line)) = Some PlayerX"
    by (intro exI[of _ 0]) (simp add: WIN_LINES_def line_complete_def sample_board_def)
  then have "computeStatus sample_board PlayerO = WON PlayerX (0, 1, 2)"
    using computeStatus_won [OF n, of PlayerO] by blast
  with n a show ?thesis by simp
qed

text \<open>
  C2. On a board of nine cells with no complete winning line, \<open>computeStatus\<close> returns
  \<open>DRAW\<close> when every cell is non-empty, and \<open>IN_PROGRESS\<close> with the player it was
  given when some cell is empty.
\<close>

theorem computeStatus_no_win:
  assumes "length b = 9" and "\<forall>l\<in>set WIN_LINES. \<not> line_complete b l"
  shows "((\<forall>i<9. b ! i \<noteq> None) \<longrightarrow> computeStatus b np = DRAW) \<and>
         ((\<exists>i<9. b ! i = None) \<longrightarrow> computeStatus b np = IN_PROGRESS np)"
proof -
  have "scan_lines b WIN_LINES = None"
    using assms scan_lines_None [OF WIN_LINES_in_range] by blast
  then have c: "computeStatus b np = (if list_all (\<lambda>c. c \<noteq> None) b then DRAW else IN_PROGRESS np)"
    by (simp add: computeStatus_def)
  show ?thesis
    unfolding c list_all_nth9 [OF assms(1)] by auto
qed

theorem computeStatus_no_win_witness:
  "length draw_board = 9 \<and> computeStatus draw_board PlayerO = DRAW \<and>
   length open_board = 9 \<and> open_board ! 2 = None \<and>
   computeStatus open_board PlayerX = IN_PROGRESS PlayerX"
proof -
  have d: "length draw_board = 9" by (simp add: draw_board_def)
  have dl: "\<forall>l\<in>set WIN_LINES. \<not> line_complete draw_board l"
    by (simp add: WIN_LINES_def line_complete_def draw_board_def)
  have df: "\<forall>i<9. draw_board ! i \<noteq> None"
    by (simp add: all_less_9 draw_board_def)
  have p: "length open_board = 9" by (simp add: open_board_def)
  have pl: "\<forall>l\<in>set WIN_LINES. \<not> line_complete open_board l"
    by (simp add: WIN_LINES_def line_complete_def open_board_def)
  have pe: "open_board ! 2 = None" by (simp add: open_board_def)
  then have pf: "\<exists>i<9. open_board ! i = None" by (intro exI[of _ 2]) simp
  show ?thesis
    using computeStatus_no_win [OF d dl, of PlayerO] computeStatus_no_win [OF p pl, of PlayerX]
      d df p pe pf by blast
qed

section \<open>Evaluation of the handlers\<close>

lemmas eval_defs =
  handleSquareClick_def computeStatus_def WIN_LINES_def at_index_def add_win_def js_add_one_def
  Let_def won_game_def drawn_game_def open_game_def pre_win_game_def pre_draw_game_def
  draw_board_def open_board_def

lemma js_add_one_exact: "- (2 ^ 53) \<le> n \<Longrightarrow> n < 2 ^ 53 \<Longrightarrow> js_add_one n = n + 1"
  by (simp add: js_add_one_def)


lemma js_add_one_samples:
  "js_add_one 0 = 1"
  "js_add_one 9007199254740991 = 9007199254740992"
  "js_add_one 9007199254740992 = 9007199254740992"
  "js_add_one 9007199254740994 = 9007199254740996"
  "js_add_one 18014398509481984 = 18014398509481984"
  "js_add_one (- 9007199254740992) = - 9007199254740991"
  "js_add_one (- 9007199254740994) = - 9007199254740992"
  by (simp_all add: js_add_one_def)

lemma empty9: "replicate 9 (None::cell) = [None, None, None, None, None, None, None, None, None]"
  by (simp add: numeral_eq_Suc)

lemma click_eval:
  "handleSquareClick index \<lparr>board = b, nextPlayer = p, score = sc\<rparr> =
     (if at_index b index \<noteq> Null then \<lparr>board = b, nextPlayer = p, score = sc\<rparr>
      else
        (case computeStatus b p of
           IN_PROGRESS current \<Rightarrow>
              \<lparr>board = b[nat index := Some current],
               nextPlayer = otherPlayer current,
               score = (case computeStatus (b[nat index := Some current]) (otherPlayer current) of
                             WON winner ln \<Rightarrow> add_win winner sc
                           | _ \<Rightarrow> sc)\<rparr>
         | _ \<Rightarrow> \<lparr>board = b, nextPlayer = p, score = sc\<rparr>))"
  by (simp add: handleSquareClick_def Let_def split: game_status.splits)

lemma scenario_play:
  "play \<lparr>board = replicate 9 None, nextPlayer = PlayerX, score = sc\<rparr> [0, 3, 1, 4, 2] =
     \<lparr>board = [Some PlayerX, Some PlayerX, Some PlayerX, Some PlayerO, Some PlayerO, None, None, None, None],
      nextPlayer = PlayerO, score = add_win PlayerX sc\<rparr>"
  by (simp add: play_def empty9 click_eval computeStatus_def WIN_LINES_def at_index_def)

section \<open>Claims about handleSquareClick\<close>

text \<open>
  C3. A click changes nothing (board, next player and score are all as before) when the
  index is outside 0..8 on a board of nine cells, when the cell at the index is filled,
  or when the status of the current state is \<open>WON\<close> or \<open>DRAW\<close>. The handler has no
  failing branch.
\<close>

theorem handleSquareClick_noop:
  "(length (board s) = 9 \<and> (index < 0 \<or> 8 < index) \<longrightarrow> handleSquareClick index s = s) \<and>
   (0 \<le> index \<and> index < int (length (board s)) \<and> board s ! nat index \<noteq> None
      \<longrightarrow> handleSquareClick index s = s) \<and>
   ((\<exists>w l. computeStatus (board s) (nextPlayer s) = WON w l) \<or>
    computeStatus (board s) (nextPlayer s) = DRAW
      \<longrightarrow> handleSquareClick index s = s)"
  by (auto simp: handleSquareClick_def at_index_def split: option.splits)

theorem handleSquareClick_noop_witness:
  "handleSquareClick 9 open_game = open_game \<and>
   handleSquareClick (- 1) open_game = open_game \<and>
   handleSquareClick 0 open_game = open_game \<and>
   computeStatus (board won_game) (nextPlayer won_game) = WON PlayerX (0, 1, 2) \<and>
   handleSquareClick 5 won_game = won_game \<and>
   computeStatus (board drawn_game) (nextPlayer drawn_game) = DRAW \<and>
   handleSquareClick 4 drawn_game = drawn_game"
proof -
  have l: "length (board open_game) = 9" by (simp add: open_game_def open_board_def)
  have f: "board open_game ! nat 0 \<noteq> None" by (simp add: open_game_def open_board_def)
  have w: "computeStatus (board won_game) (nextPlayer won_game) = WON PlayerX (0, 1, 2)"
    by (simp add: eval_defs)
  have d: "computeStatus (board drawn_game) (nextPlayer drawn_game) = DRAW"
    by (simp add: eval_defs)
  show ?thesis
    using handleSquareClick_noop [of open_game 9] handleSquareClick_noop [of open_game "- 1"]
      handleSquareClick_noop [of open_game 0] handleSquareClick_noop [of won_game 5]
      handleSquareClick_noop [of drawn_game 4] l f w d
    by simp
qed

text \<open>
  C4. A valid move (an empty cell of the board, status \<open>IN_PROGRESS\<close>) writes the mark
  of the current next player at the index, leaves the other cells as they were, and makes
  the other player the next one, whatever the status of the new board is.
\<close>

theorem handleSquareClick_move:
  assumes "0 \<le> index" and "index < int (length (board s))"
    and "board s ! nat index = None"
    and "computeStatus (board s) (nextPlayer s) = IN_PROGRESS (nextPlayer s)"
  shows "board (handleSquareClick index s) = (board s)[nat index := Some (nextPlayer s)] \<and>
         board (handleSquareClick index s) ! nat index = Some (nextPlayer s) \<and>
         nextPlayer (handleSquareClick index s) = otherPlayer (nextPlayer s) \<and>
         nextPlayer (handleSquareClick index s) \<noteq> nextPlayer s"
  using assms by (simp add: handleSquareClick_def at_index_def Let_def)

theorem handleSquareClick_move_witness:
  "computeStatus (board (handleSquareClick 2 open_game)) PlayerO = IN_PROGRESS PlayerO \<and>
   board (handleSquareClick 2 open_game) ! 2 = Some PlayerX \<and>
   nextPlayer (handleSquareClick 2 open_game) = PlayerO \<and>
   computeStatus (board (handleSquareClick 2 pre_win_game)) PlayerO = WON PlayerX (0, 1, 2) \<and>
   board (handleSquareClick 2 pre_win_game) ! 2 = Some PlayerX \<and>
   nextPlayer (handleSquareClick 2 pre_win_game) = PlayerO \<and>
   computeStatus (board (handleSquareClick 8 pre_draw_game)) PlayerO = DRAW \<and>
   board (handleSquareClick 8 pre_draw_game) ! 8 = Some PlayerX \<and>
   nextPlayer (handleSquareClick 8 pre_draw_game) = PlayerO"
proof -
  have a: "(0::int) \<le> 2" "2 < int (length (board open_game))" "board open_game ! nat 2 = None"
    "computeStatus (board open_game) (nextPlayer open_game) = IN_PROGRESS (nextPlayer open_game)"
    by (simp_all add: eval_defs)
  have b: "2 < int (length (board pre_win_game))" "board pre_win_game ! nat 2 = None"
    "computeStatus (board pre_win_game) (nextPlayer pre_win_game) = IN_PROGRESS (nextPlayer pre_win_game)"
    by (simp_all add: eval_defs)
  have c: "(0::int) \<le> 8" "8 < int (length (board pre_draw_game))" "board pre_draw_game ! nat 8 = None"
    "computeStatus (board pre_draw_game) (nextPlayer pre_draw_game) = IN_PROGRESS (nextPlayer pre_draw_game)"
    by (simp_all add: eval_defs)
  note A = handleSquareClick_move [OF a]
  note B = handleSquareClick_move [OF a(1) b]
  note C = handleSquareClick_move [OF c]
  have sa: "computeStatus ((board open_game)[nat 2 := Some (nextPlayer open_game)]) PlayerO = IN_PROGRESS PlayerO"
    by (simp add: eval_defs)
  have sb: "computeStatus ((board pre_win_game)[nat 2 := Some (nextPlayer pre_win_game)]) PlayerO = WON PlayerX (0, 1, 2)"
    by (simp add: eval_defs)
  have sc: "computeStatus ((board pre_draw_game)[nat 8 := Some (nextPlayer pre_draw_game)]) PlayerO = DRAW"
    by (simp add: eval_defs)
  have np: "nextPlayer open_game = PlayerX" "nextPlayer pre_win_game = PlayerX" "nextPlayer pre_draw_game = PlayerX"
    by (simp_all add: eval_defs)
  show ?thesis
    using A B C sa sb sc np by (simp add: open_game_def pre_win_game_def pre_draw_game_def open_board_def)
qed

text \<open>
  C5, as stated, fails: a count is a JavaScript number, and adding one to \<open>2 ^ 53\<close>
  gives \<open>2 ^ 53\<close> back. After the load of the record \<^verbatim>\<open>{"X":9007199254740992,"O":0}\<close>
  and the clicks 0, 3, 1, 4, the click on square 2 is a valid move that wins for X, and
  X's count is what it was.
\<close>

theorem win_leaves_big_count:
  \<open>play (mount sample_parse (Item ''{"X":9007199254740992,"O":0}'')) [0, 3, 1, 4] = big_count_game \<and>
   board big_count_game ! 2 = None \<and>
   computeStatus (board big_count_game) (nextPlayer big_count_game) = IN_PROGRESS PlayerX \<and>
   computeStatus (board (handleSquareClick 2 big_count_game))
     (nextPlayer (handleSquareClick 2 big_count_game)) = WON PlayerX (0, 1, 2) \<and>
   X_wins (score big_count_game) = 9007199254740992 \<and>
   X_wins (score (handleSquareClick 2 big_count_game)) = 9007199254740992 \<and>
   X_wins (score (handleSquareClick 2 big_count_game)) \<noteq> X_wins (score big_count_game) + 1\<close>
proof -
  have m: \<open>mount sample_parse (Item ''{"X":9007199254740992,"O":0}'') =
      \<lparr>board = replicate 9 None, nextPlayer = PlayerX,
       score = \<lparr>X_wins = 9007199254740992, O_wins = 0\<rparr>\<rparr>\<close>
    by (simp add: mount_def load_effect_def sample_parse_def initial_game_def)
  have p: \<open>play (mount sample_parse (Item ''{"X":9007199254740992,"O":0}'')) [0, 3, 1, 4] = big_count_game\<close>
    unfolding m
    by (simp add: play_def empty9 click_eval computeStatus_def WIN_LINES_def at_index_def
        big_count_game_def)
  have c: "handleSquareClick 2 big_count_game =
      \<lparr>board = [Some PlayerX, Some PlayerX, Some PlayerX, Some PlayerO, Some PlayerO, None, None, None, None],
       nextPlayer = PlayerO, score = \<lparr>X_wins = 9007199254740992, O_wins = 0\<rparr>\<rparr>"
    by (simp add: big_count_game_def click_eval computeStatus_def WIN_LINES_def at_index_def
        add_win_def js_add_one_def)
  have b: "board big_count_game ! 2 = None"
    "computeStatus (board big_count_game) (nextPlayer big_count_game) = IN_PROGRESS PlayerX"
    "X_wins (score big_count_game) = 9007199254740992"
    by (simp_all add: big_count_game_def computeStatus_def WIN_LINES_def at_index_def)
  have w: "computeStatus (board (handleSquareClick 2 big_count_game))
     (nextPlayer (handleSquareClick 2 big_count_game)) = WON PlayerX (0, 1, 2)"
    unfolding c by (simp add: computeStatus_def WIN_LINES_def at_index_def)
  have x: "X_wins (score (handleSquareClick 2 big_count_game)) = 9007199254740992"
    unfolding c by simp
  show ?thesis using p b w x by simp
qed

text \<open>
  C5, amended. After a valid move whose new status is \<open>WON\<close>, the winner's count is the
  JavaScript sum of the old count and one, which is one higher whenever the old count is
  a whole number from \<open>- (2 ^ 53)\<close> up to \<open>2 ^ 53 - 1\<close>, and the other count is unchanged;
  after a valid move whose new status is \<open>DRAW\<close> or \<open>IN_PROGRESS\<close>, the score is
  unchanged. From the empty board with X to move, the clicks 0, 3, 1, 4, 2 end in
  \<open>WON PlayerX (0, 1, 2)\<close> with O's count unchanged and X's count one higher for a count
  in that range; from the initial state, the score goes from 0 to 1 for X and stays 0
  for O.
\<close>

theorem handleSquareClick_score:
  assumes "0 \<le> index" and "index < int (length (board s))"
    and "board s ! nat index = None"
    and "computeStatus (board s) (nextPlayer s) = IN_PROGRESS (nextPlayer s)"
  shows "(let s' = handleSquareClick index s; status' = computeStatus (board s') (nextPlayer s') in
           (\<forall>l. status' = WON PlayerX l \<longrightarrow>
              X_wins (score s') = js_add_one (X_wins (score s)) \<and>
              (- (2 ^ 53) \<le> X_wins (score s) \<and> X_wins (score s) < 2 ^ 53 \<longrightarrow>
                 X_wins (score s') = X_wins (score s) + 1) \<and>
              O_wins (score s') = O_wins (score s)) \<and>
           (\<forall>l. status' = WON PlayerO l \<longrightarrow>
              O_wins (score s') = js_add_one (O_wins (score s)) \<and>
              (- (2 ^ 53) \<le> O_wins (score s) \<and> O_wins (score s) < 2 ^ 53 \<longrightarrow>
                 O_wins (score s') = O_wins (score s) + 1) \<and>
              X_wins (score s') = X_wins (score s)) \<and>
           (status' = DRAW \<or> (\<exists>q. status' = IN_PROGRESS q) \<longrightarrow> score s' = score s)) \<and>
         (let start = \<lparr>board = replicate 9 None, nextPlayer = PlayerX, score = sc\<rparr>;
              final = play start [0, 3, 1, 4, 2] in
           computeStatus (board final) (nextPlayer final) = WON PlayerX (0, 1, 2) \<and>
           (- (2 ^ 53) \<le> X_wins sc \<and> X_wins sc < 2 ^ 53 \<longrightarrow> X_wins (score final) = X_wins sc + 1) \<and>
           O_wins (score final) = O_wins sc) \<and>
         computeStatus (board (play initial_game [0, 3, 1, 4, 2]))
           (nextPlayer (play initial_game [0, 3, 1, 4, 2])) = WON PlayerX (0, 1, 2) \<and>
         score initial_game = \<lparr>X_wins = 0, O_wins = 0\<rparr> \<and>
         score (play initial_game [0, 3, 1, 4, 2]) = \<lparr>X_wins = 1, O_wins = 0\<rparr>"
proof -
  have A: "let s' = handleSquareClick index s; status' = computeStatus (board s') (nextPlayer s') in
           (\<forall>l. status' = WON PlayerX l \<longrightarrow>
              X_wins (score s') = js_add_one (X_wins (score s)) \<and>
              (- (2 ^ 53) \<le> X_wins (score s) \<and> X_wins (score s) < 2 ^ 53 \<longrightarrow>
                 X_wins (score s') = X_wins (score s) + 1) \<and>
              O_wins (score s') = O_wins (score s)) \<and>
           (\<forall>l. status' = WON PlayerO l \<longrightarrow>
              O_wins (score s') = js_add_one (O_wins (score s)) \<and>
              (- (2 ^ 53) \<le> O_wins (score s) \<and> O_wins (score s) < 2 ^ 53 \<longrightarrow>
                 O_wins (score s') = O_wins (score s) + 1) \<and>
              X_wins (score s') = X_wins (score s)) \<and>
           (status' = DRAW \<or> (\<exists>q. status' = IN_PROGRESS q) \<longrightarrow> score s' = score s)"
    using assms
    by (auto simp: handleSquareClick_def at_index_def Let_def add_win_def js_add_one_exact
        split: game_status.splits)
  have B: "let start = \<lparr>board = replicate 9 None, nextPlayer = PlayerX, score = sc\<rparr>;
              final = play start [0, 3, 1, 4, 2] in
           computeStatus (board final) (nextPlayer final) = WON PlayerX (0, 1, 2) \<and>
           (- (2 ^ 53) \<le> X_wins sc \<and> X_wins sc < 2 ^ 53 \<longrightarrow> X_wins (score final) = X_wins sc + 1) \<and>
           O_wins (score final) = O_wins sc"
    by (simp add: scenario_play add_win_def js_add_one_exact Let_def computeStatus_def
        WIN_LINES_def at_index_def)
  have i: "initial_game =
      \<lparr>board = replicate 9 None, nextPlayer = PlayerX, score = \<lparr>X_wins = 0, O_wins = 0\<rparr>\<rparr>"
    by (simp add: initial_game_def)
  have C: "computeStatus (board (play initial_game [0, 3, 1, 4, 2]))
           (nextPlayer (play initial_game [0, 3, 1, 4, 2])) = WON PlayerX (0, 1, 2)"
    unfolding i by (simp add: scenario_play computeStatus_def WIN_LINES_def at_index_def)
  have D: "score initial_game = \<lparr>X_wins = 0, O_wins = 0\<rparr>"
    by (simp add: initial_game_def)
  have E: "score (play initial_game [0, 3, 1, 4, 2]) = \<lparr>X_wins = 1, O_wins = 0\<rparr>"
    unfolding i by (simp add: scenario_play add_win_def js_add_one_def)
  show ?thesis
    by (intro conjI) (rule A, rule B, rule C, rule D, rule E)
qed

theorem handleSquareClick_score_witness:
  "computeStatus (board (handleSquareClick 2 pre_win_game)) (nextPlayer (handleSquareClick 2 pre_win_game))
     = WON PlayerX (0, 1, 2) \<and>
   score pre_win_game = \<lparr>X_wins = 0, O_wins = 0\<rparr> \<and>
   score (handleSquareClick 2 pre_win_game) = \<lparr>X_wins = 1, O_wins = 0\<rparr> \<and>
   score (handleSquareClick 8 pre_draw_game) = score pre_draw_game \<and>
   score (handleSquareClick 2 open_game) = score open_game \<and>
   score (play initial_game [0, 3, 1, 4, 2]) = \<lparr>X_wins = 1, O_wins = 0\<rparr>"
proof -
  have a: "(0::int) \<le> 2" "2 < int (length (board open_game))" "board open_game ! nat 2 = None"
    "computeStatus (board open_game) (nextPlayer open_game) = IN_PROGRESS (nextPlayer open_game)"
    by (simp_all add: eval_defs)
  have b: "2 < int (length (board pre_win_game))" "board pre_win_game ! nat 2 = None"
    "computeStatus (board pre_win_game) (nextPlayer pre_win_game) = IN_PROGRESS (nextPlayer pre_win_game)"
    by (simp_all add: eval_defs)
  have c: "(0::int) \<le> 8" "8 < int (length (board pre_draw_game))" "board pre_draw_game ! nat 8 = None"
    "computeStatus (board pre_draw_game) (nextPlayer pre_draw_game) = IN_PROGRESS (nextPlayer pre_draw_game)"
    by (simp_all add: eval_defs)
  have sa: "computeStatus (board (handleSquareClick 2 open_game)) (nextPlayer (handleSquareClick 2 open_game)) = IN_PROGRESS PlayerO"
    by (simp add: eval_defs)
  have sb: "computeStatus (board (handleSquareClick 2 pre_win_game)) (nextPlayer (handleSquareClick 2 pre_win_game)) = WON PlayerX (0, 1, 2)"
    by (simp add: eval_defs)
  have sc: "computeStatus (board (handleSquareClick 8 pre_draw_game)) (nextPlayer (handleSquareClick 8 pre_draw_game)) = DRAW"
    by (simp add: eval_defs)
  have z: "score pre_win_game = \<lparr>X_wins = 0, O_wins = 0\<rparr>" by (simp add: pre_win_game_def)
  have r: "- (2 ^ 53) \<le> X_wins (score pre_win_game) \<and> X_wins (score pre_win_game) < 2 ^ 53"
    by (simp add: pre_win_game_def)
  note A = handleSquareClick_score [OF a, of "\<lparr>X_wins = 0, O_wins = 0\<rparr>", unfolded Let_def]
  note B = handleSquareClick_score [OF a(1) b, of "\<lparr>X_wins = 0, O_wins = 0\<rparr>", unfolded Let_def]
  note C = handleSquareClick_score [OF c, of "\<lparr>X_wins = 0, O_wins = 0\<rparr>", unfolded Let_def]
  have 1: "score (handleSquareClick 2 open_game) = score open_game" using A sa by blast
  have 2: "score (handleSquareClick 8 pre_draw_game) = score pre_draw_game" using C sc by blast
  from B sb have "(- (2 ^ 53) \<le> X_wins (score pre_win_game) \<and> X_wins (score pre_win_game) < 2 ^ 53 \<longrightarrow>
       X_wins (score (handleSquareClick 2 pre_win_game)) = X_wins (score pre_win_game) + 1) \<and>
     O_wins (score (handleSquareClick 2 pre_win_game)) = O_wins (score pre_win_game)"
    by blast
  with r z have 3: "X_wins (score (handleSquareClick 2 pre_win_game)) = 1 \<and>
      O_wins (score (handleSquareClick 2 pre_win_game)) = 0"
    by simp
  have 4: "score (play initial_game [0, 3, 1, 4, 2]) = \<lparr>X_wins = 1, O_wins = 0\<rparr>"
    using A by blast
  show ?thesis using 1 2 3 4 sb z by (simp add: score.equality)
qed

section \<open>Claims about resetRound\<close>

text \<open>
  C9. \<open>resetRound\<close> makes all nine cells empty and sets the next player to its argument,
  or keeps the current next player when called without one; both counts of the score
  stay as they were.
\<close>

theorem resetRound_frame:
  "length (board (resetRound startingPlayer s)) = 9 \<and>
   (\<forall>i<9. board (resetRound startingPlayer s) ! i = None) \<and>
   nextPlayer (resetRound (Some p) s) = p \<and>
   nextPlayer (resetRound None s) = nextPlayer s \<and>
   X_wins (score (resetRound startingPlayer s)) = X_wins (score s) \<and>
   O_wins (score (resetRound startingPlayer s)) = O_wins (score s) \<and>
   score (resetRound startingPlayer s) = score s"
  by (simp add: resetRound_def)

theorem resetRound_frame_witness:
  "board (resetRound (Some PlayerO) won_game) = replicate 9 None \<and>
   nextPlayer (resetRound (Some PlayerO) won_game) = PlayerO \<and>
   nextPlayer (resetRound None won_game) = PlayerO \<and>
   nextPlayer (resetRound (Some PlayerX) won_game) = PlayerX \<and>
   score (resetRound (Some PlayerO) won_game) = \<lparr>X_wins = 1, O_wins = 0\<rparr>"
  using resetRound_frame [of "Some PlayerO" won_game PlayerO]
    resetRound_frame [of None won_game PlayerX]
  by (simp add: resetRound_def won_game_def)

section \<open>The player argument of computeStatus\<close>

text \<open>
  C10. Whether \<open>computeStatus\<close> returns \<open>WON\<close> (and with which winner and line) or
  \<open>DRAW\<close> does not depend on the player it is given; only \<open>IN_PROGRESS\<close> carries that
  player.
\<close>

theorem computeStatus_nextPlayer_independent:
  "(computeStatus b p = WON w l \<longrightarrow> computeStatus b q = WON w l) \<and>
   (computeStatus b p = DRAW \<longrightarrow> computeStatus b q = DRAW) \<and>
   (computeStatus b p = IN_PROGRESS r \<longrightarrow> r = p \<and> computeStatus b q = IN_PROGRESS q)"
  by (auto simp: computeStatus_def split: option.splits if_splits dest: scan_lines_WON)

theorem computeStatus_nextPlayer_independent_witness:
  "computeStatus sample_board PlayerX = WON PlayerX (0, 1, 2) \<and>
   computeStatus sample_board PlayerO = WON PlayerX (0, 1, 2) \<and>
   computeStatus draw_board PlayerX = DRAW \<and>
   computeStatus draw_board PlayerO = DRAW \<and>
   computeStatus open_board PlayerX = IN_PROGRESS PlayerX \<and>
   computeStatus open_board PlayerO = IN_PROGRESS PlayerO"
proof -
  have a: "computeStatus sample_board PlayerX = WON PlayerX (0, 1, 2)"
    by (simp add: computeStatus_def WIN_LINES_def at_index_def sample_board_def)
  have b: "computeStatus draw_board PlayerX = DRAW"
    by (simp add: computeStatus_def WIN_LINES_def at_index_def draw_board_def)
  have c: "computeStatus open_board PlayerX = IN_PROGRESS PlayerX"
    by (simp add: computeStatus_def WIN_LINES_def at_index_def open_board_def)
  show ?thesis
    using a b c
      computeStatus_nextPlayer_independent [of sample_board PlayerX PlayerX "(0, 1, 2)" PlayerO PlayerX]
      computeStatus_nextPlayer_independent [of draw_board PlayerX PlayerX "(0, 1, 2)" PlayerO PlayerX]
      computeStatus_nextPlayer_independent [of open_board PlayerX PlayerX "(0, 1, 2)" PlayerO PlayerX]
    by simp
qed

section \<open>Claims about the score\<close>

lemma load_effect_score:
  "score (load_effect P stored s) =
     (case stored of
        Item raw \<Rightarrow>
          if raw = [] then score s
          else
            (case P raw of
               None \<Rightarrow> score s
             | Some JNull \<Rightarrow> score s
             | Some parsed \<Rightarrow>
                 \<lparr>X_wins = number_or_zero (member_of parsed ''X''),
                  O_wins = number_or_zero (member_of parsed ''O'')\<rparr>)
      | _ \<Rightarrow> score s)"
  by (simp add: load_effect_def split: storage_read.splits option.splits js_value.splits)

lemma number_or_zero_cases:
  "(v = Some (JNumber n) \<longrightarrow> number_or_zero v = n) \<and>
   ((\<nexists>n. v = Some (JNumber n)) \<longrightarrow> number_or_zero v = 0)"
  by (cases v rule: number_or_zero.cases) auto

text \<open>
  C6. The score loaded at start is zero for both players when no record is stored, when
  storage cannot be read, or when the stored text does not parse (for one, the text
  \<^verbatim>\<open>not json\<close>, for any parser that rejects it). When the text parses to a record,
  each of the fields X and O is the stored one when that is a number and 0 otherwise,
  each field on its own; a parsed value that is not a record gives zero for both. The
  load has no failing outcome.
\<close>

theorem loadScore_tolerant:
  "(stored = NoItem \<or> stored = StorageError \<or> stored = Item [] \<or>
    (stored = Item raw \<and> JSON_parse raw = None)
      \<longrightarrow> loadScore JSON_parse stored = \<lparr>X_wins = 0, O_wins = 0\<rparr>) \<and>
   (JSON_parse ''not json'' = None
      \<longrightarrow> loadScore JSON_parse (Item ''not json'') = \<lparr>X_wins = 0, O_wins = 0\<rparr>) \<and>
   (raw \<noteq> [] \<and> JSON_parse raw = Some (JObject props) \<longrightarrow>
      (\<forall>n. map_of props ''X'' = Some (JNumber n) \<longrightarrow> X_wins (loadScore JSON_parse (Item raw)) = n) \<and>
      ((\<nexists>n. map_of props ''X'' = Some (JNumber n)) \<longrightarrow> X_wins (loadScore JSON_parse (Item raw)) = 0) \<and>
      (\<forall>n. map_of props ''O'' = Some (JNumber n) \<longrightarrow> O_wins (loadScore JSON_parse (Item raw)) = n) \<and>
      ((\<nexists>n. map_of props ''O'' = Some (JNumber n)) \<longrightarrow> O_wins (loadScore JSON_parse (Item raw)) = 0)) \<and>
   (raw \<noteq> [] \<and> JSON_parse raw = Some parsed \<and> (\<nexists>props. parsed = JObject props)
      \<longrightarrow> loadScore JSON_parse (Item raw) = \<lparr>X_wins = 0, O_wins = 0\<rparr>)"
proof -
  have A: "stored = NoItem \<or> stored = StorageError \<or> stored = Item [] \<or>
      (stored = Item raw \<and> JSON_parse raw = None)
      \<longrightarrow> loadScore JSON_parse stored = \<lparr>X_wins = 0, O_wins = 0\<rparr>"
    by (auto simp: loadScore_def load_effect_score initial_game_def)
  have B: "JSON_parse ''not json'' = None
      \<longrightarrow> loadScore JSON_parse (Item ''not json'') = \<lparr>X_wins = 0, O_wins = 0\<rparr>"
    by (simp add: loadScore_def load_effect_score initial_game_def)
  have C: "raw \<noteq> [] \<and> JSON_parse raw = Some (JObject props) \<longrightarrow>
      (\<forall>n. map_of props ''X'' = Some (JNumber n) \<longrightarrow> X_wins (loadScore JSON_parse (Item raw)) = n) \<and>
      ((\<nexists>n. map_of props ''X'' = Some (JNumber n)) \<longrightarrow> X_wins (loadScore JSON_parse (Item raw)) = 0) \<and>
      (\<forall>n. map_of props ''O'' = Some (JNumber n) \<longrightarrow> O_wins (loadScore JSON_parse (Item raw)) = n) \<and>
      ((\<nexists>n. map_of props ''O'' = Some (JNumber n)) \<longrightarrow> O_wins (loadScore JSON_parse (Item raw)) = 0)"
  proof
    assume "raw \<noteq> [] \<and> JSON_parse raw = Some (JObject props)"
    then have s: "loadScore JSON_parse (Item raw) =
        \<lparr>X_wins = number_or_zero (map_of props ''X''), O_wins = number_or_zero (map_of props ''O'')\<rparr>"
      by (simp add: loadScore_def load_effect_score)
    show "(\<forall>n. map_of props ''X'' = Some (JNumber n) \<longrightarrow> X_wins (loadScore JSON_parse (Item raw)) = n) \<and>
      ((\<nexists>n. map_of props ''X'' = Some (JNumber n)) \<longrightarrow> X_wins (loadScore JSON_parse (Item raw)) = 0) \<and>
      (\<forall>n. map_of props ''O'' = Some (JNumber n) \<longrightarrow> O_wins (loadScore JSON_parse (Item raw)) = n) \<and>
      ((\<nexists>n. map_of props ''O'' = Some (JNumber n)) \<longrightarrow> O_wins (loadScore JSON_parse (Item raw)) = 0)"
      unfolding s
      using number_or_zero_cases [of "map_of props ''X''"] number_or_zero_cases [of "map_of props ''O''"]
      by simp
  qed
  have D: "raw \<noteq> [] \<and> JSON_parse raw = Some parsed \<and> (\<nexists>props. parsed = JObject props)
      \<longrightarrow> loadScore JSON_parse (Item raw) = \<lparr>X_wins = 0, O_wins = 0\<rparr>"
    by (cases parsed) (simp_all add: loadScore_def load_effect_score initial_game_def)
  show ?thesis
    by (intro conjI) (rule A, rule B, rule C, rule D)
qed

theorem loadScore_tolerant_witness:
  \<open>loadScore sample_parse NoItem = \<lparr>X_wins = 0, O_wins = 0\<rparr> \<and>
   sample_parse ''not json'' = None \<and>
   loadScore sample_parse (Item ''not json'') = \<lparr>X_wins = 0, O_wins = 0\<rparr> \<and>
   loadScore sample_parse (Item ''{"X":3,"O":"many"}'') = \<lparr>X_wins = 3, O_wins = 0\<rparr> \<and>
   loadScore sample_parse (Item ''{"O":4}'') = \<lparr>X_wins = 0, O_wins = 4\<rparr> \<and>
   loadScore sample_parse (Item ''[1,2]'') = \<lparr>X_wins = 0, O_wins = 0\<rparr>\<close>
proof -
  have n: "sample_parse ''not json'' = None" by (simp add: sample_parse_def)
  have a: \<open>sample_parse ''{"X":3,"O":"many"}'' = Some (JObject [(''X'', JNumber 3), (''O'', JString ''many'')])\<close>
    by (simp add: sample_parse_def)
  have b: \<open>sample_parse ''{"O":4}'' = Some (JObject [(''O'', JNumber 4)])\<close>
    by (simp add: sample_parse_def)
  have c: \<open>sample_parse ''[1,2]'' = Some (JArray [JNumber 1, JNumber 2])\<close>
    by (simp add: sample_parse_def)
  note A = loadScore_tolerant [of NoItem "''not json''" sample_parse "[]" JNull]
  note B = loadScore_tolerant [of NoItem \<open>''{"X":3,"O":"many"}''\<close> sample_parse
      "[(''X'', JNumber 3), (''O'', JString ''many'')]" JNull]
  note C = loadScore_tolerant [of NoItem \<open>''{"O":4}''\<close> sample_parse "[(''O'', JNumber 4)]" JNull]
  note D = loadScore_tolerant [of NoItem \<open>''[1,2]''\<close> sample_parse "[]" "JArray [JNumber 1, JNumber 2]"]
  have 1: "loadScore sample_parse NoItem = \<lparr>X_wins = 0, O_wins = 0\<rparr>" using A by simp
  have 2: "loadScore sample_parse (Item ''not json'') = \<lparr>X_wins = 0, O_wins = 0\<rparr>" using A n by simp
  have 3: \<open>loadScore sample_parse (Item ''{"X":3,"O":"many"}'') = \<lparr>X_wins = 3, O_wins = 0\<rparr>\<close>
    using B a by (simp add: score.equality)
  have 4: \<open>loadScore sample_parse (Item ''{"O":4}'') = \<lparr>X_wins = 0, O_wins = 4\<rparr>\<close>
    using C b by (simp add: score.equality)
  have 5: \<open>loadScore sample_parse (Item ''[1,2]'') = \<lparr>X_wins = 0, O_wins = 0\<rparr>\<close>
    using D c by simp
  show ?thesis using 1 2 3 4 5 n by simp
qed










section \<open>Complete lines in play\<close>

lemma count9:
  "count_list [c0, c1, c2, c3, c4, c5, c6, c7, c8] (y::cell) =
     (if c0 = y then 1 else 0) + (if c1 = y then 1 else 0) + (if c2 = y then 1 else 0) +
     (if c3 = y then 1 else 0) + (if c4 = y then 1 else 0) + (if c5 = y then 1 else 0) +
     (if c6 = y then 1 else 0) + (if c7 = y then 1 else 0) + (if c8 = y then 1 else 0)"
  by simp

lemma line_complete9:
  "line_complete [c0, c1, c2, c3, c4, c5, c6, c7, c8] (0, 1, 2) \<longleftrightarrow> c0 \<noteq> None \<and> c0 = c1 \<and> c0 = c2"
  "line_complete [c0, c1, c2, c3, c4, c5, c6, c7, c8] (3, 4, 5) \<longleftrightarrow> c3 \<noteq> None \<and> c3 = c4 \<and> c3 = c5"
  "line_complete [c0, c1, c2, c3, c4, c5, c6, c7, c8] (6, 7, 8) \<longleftrightarrow> c6 \<noteq> None \<and> c6 = c7 \<and> c6 = c8"
  "line_complete [c0, c1, c2, c3, c4, c5, c6, c7, c8] (0, 3, 6) \<longleftrightarrow> c0 \<noteq> None \<and> c0 = c3 \<and> c0 = c6"
  "line_complete [c0, c1, c2, c3, c4, c5, c6, c7, c8] (1, 4, 7) \<longleftrightarrow> c1 \<noteq> None \<and> c1 = c4 \<and> c1 = c7"
  "line_complete [c0, c1, c2, c3, c4, c5, c6, c7, c8] (2, 5, 8) \<longleftrightarrow> c2 \<noteq> None \<and> c2 = c5 \<and> c2 = c8"
  "line_complete [c0, c1, c2, c3, c4, c5, c6, c7, c8] (0, 4, 8) \<longleftrightarrow> c0 \<noteq> None \<and> c0 = c4 \<and> c0 = c8"
  "line_complete [c0, c1, c2, c3, c4, c5, c6, c7, c8] (2, 4, 6) \<longleftrightarrow> c2 \<noteq> None \<and> c2 = c4 \<and> c2 = c6"
  by (simp_all add: line_complete_def del: not_None_eq)


lemma filter_three: "\<not> (P a \<and> P b \<and> P c) \<Longrightarrow> length (filter P [a, b, c]) \<le> 2"
  by auto

lemma filter_four:
  "\<not> (P a \<and> P b \<and> P c) \<Longrightarrow> \<not> (P a \<and> P b \<and> P d) \<Longrightarrow> \<not> (P a \<and> P c \<and> P d) \<Longrightarrow>
   \<not> (P b \<and> P c \<and> P d) \<Longrightarrow> length (filter P [a, b, c, d]) \<le> 2"
  by auto

lemma three_lines_through_cell:
  fixes c0 c1 c2 c3 c4 c5 c6 c7 c8 :: cell
  defines "B \<equiv> [c0, c1, c2, c3, c4, c5, c6, c7, c8]"
  assumes cx: "count_list B (Some PlayerX) \<le> 5"
    and co: "count_list B (Some PlayerO) \<le> 5"
  shows "\<not> (line_complete B (0, 1, 2) \<and> line_complete B (0, 3, 6) \<and> line_complete B (0, 4, 8))"
    and "\<not> (line_complete B (0, 1, 2) \<and> line_complete B (2, 5, 8) \<and> line_complete B (2, 4, 6))"
    and "\<not> (line_complete B (3, 4, 5) \<and> line_complete B (1, 4, 7) \<and> line_complete B (0, 4, 8))"
    and "\<not> (line_complete B (3, 4, 5) \<and> line_complete B (1, 4, 7) \<and> line_complete B (2, 4, 6))"
    and "\<not> (line_complete B (3, 4, 5) \<and> line_complete B (0, 4, 8) \<and> line_complete B (2, 4, 6))"
    and "\<not> (line_complete B (1, 4, 7) \<and> line_complete B (0, 4, 8) \<and> line_complete B (2, 4, 6))"
    and "\<not> (line_complete B (6, 7, 8) \<and> line_complete B (0, 3, 6) \<and> line_complete B (2, 4, 6))"
    and "\<not> (line_complete B (6, 7, 8) \<and> line_complete B (2, 5, 8) \<and> line_complete B (0, 4, 8))"
proof -
  show "\<not> (line_complete B (0, 1, 2) \<and> line_complete B (0, 3, 6) \<and> line_complete B (0, 4, 8))"
  proof
    assume a: "line_complete B (0, 1, 2) \<and> line_complete B (0, 3, 6) \<and> line_complete B (0, 4, 8)"
    then obtain p where p: "c0 = Some p" unfolding B_def line_complete9 by auto
    from a have e: "c1 = Some p" "c2 = Some p" "c3 = Some p" "c6 = Some p" "c4 = Some p" "c8 = Some p"
      unfolding B_def line_complete9 p by auto
    have "7 \<le> count_list B (Some p)" unfolding B_def count9 p e by simp
    with cx co show False by (cases p) simp_all
  qed
  show "\<not> (line_complete B (0, 1, 2) \<and> line_complete B (2, 5, 8) \<and> line_complete B (2, 4, 6))"
  proof
    assume a: "line_complete B (0, 1, 2) \<and> line_complete B (2, 5, 8) \<and> line_complete B (2, 4, 6)"
    then obtain p where p: "c0 = Some p" unfolding B_def line_complete9 by auto
    from a have e: "c1 = Some p" "c2 = Some p" "c5 = Some p" "c8 = Some p" "c4 = Some p" "c6 = Some p"
      unfolding B_def line_complete9 p by auto
    have "7 \<le> count_list B (Some p)" unfolding B_def count9 p e by simp
    with cx co show False by (cases p) simp_all
  qed
  show "\<not> (line_complete B (3, 4, 5) \<and> line_complete B (1, 4, 7) \<and> line_complete B (0, 4, 8))"
  proof
    assume a: "line_complete B (3, 4, 5) \<and> line_complete B (1, 4, 7) \<and> line_complete B (0, 4, 8)"
    then obtain p where p: "c3 = Some p" unfolding B_def line_complete9 by auto
    from a have e: "c4 = Some p" "c5 = Some p" "c1 = Some p" "c7 = Some p" "c0 = Some p" "c8 = Some p"
      unfolding B_def line_complete9 p by auto
    have "7 \<le> count_list B (Some p)" unfolding B_def count9 p e by simp
    with cx co show False by (cases p) simp_all
  qed
  show "\<not> (line_complete B (3, 4, 5) \<and> line_complete B (1, 4, 7) \<and> line_complete B (2, 4, 6))"
  proof
    assume a: "line_complete B (3, 4, 5) \<and> line_complete B (1, 4, 7) \<and> line_complete B (2, 4, 6)"
    then obtain p where p: "c3 = Some p" unfolding B_def line_complete9 by auto
    from a have e: "c4 = Some p" "c5 = Some p" "c1 = Some p" "c7 = Some p" "c2 = Some p" "c6 = Some p"
      unfolding B_def line_complete9 p by auto
    have "7 \<le> count_list B (Some p)" unfolding B_def count9 p e by simp
    with cx co show False by (cases p) simp_all
  qed
  show "\<not> (line_complete B (3, 4, 5) \<and> line_complete B (0, 4, 8) \<and> line_complete B (2, 4, 6))"
  proof
    assume a: "line_complete B (3, 4, 5) \<and> line_complete B (0, 4, 8) \<and> line_complete B (2, 4, 6)"
    then obtain p where p: "c3 = Some p" unfolding B_def line_complete9 by auto
    from a have e: "c4 = Some p" "c5 = Some p" "c0 = Some p" "c8 = Some p" "c2 = Some p" "c6 = Some p"
      unfolding B_def line_complete9 p by auto
    have "7 \<le> count_list B (Some p)" unfolding B_def count9 p e by simp
    with cx co show False by (cases p) simp_all
  qed
  show "\<not> (line_complete B (1, 4, 7) \<and> line_complete B (0, 4, 8) \<and> line_complete B (2, 4, 6))"
  proof
    assume a: "line_complete B (1, 4, 7) \<and> line_complete B (0, 4, 8) \<and> line_complete B (2, 4, 6)"
    then obtain p where p: "c1 = Some p" unfolding B_def line_complete9 by auto
    from a have e: "c4 = Some p" "c7 = Some p" "c0 = Some p" "c8 = Some p" "c2 = Some p" "c6 = Some p"
      unfolding B_def line_complete9 p by auto
    have "7 \<le> count_list B (Some p)" unfolding B_def count9 p e by simp
    with cx co show False by (cases p) simp_all
  qed
  show "\<not> (line_complete B (6, 7, 8) \<and> line_complete B (0, 3, 6) \<and> line_complete B (2, 4, 6))"
  proof
    assume a: "line_complete B (6, 7, 8) \<and> line_complete B (0, 3, 6) \<and> line_complete B (2, 4, 6)"
    then obtain p where p: "c6 = Some p" unfolding B_def line_complete9 by auto
    from a have e: "c7 = Some p" "c8 = Some p" "c0 = Some p" "c3 = Some p" "c2 = Some p" "c4 = Some p"
      unfolding B_def line_complete9 p by auto
    have "7 \<le> count_list B (Some p)" unfolding B_def count9 p e by simp
    with cx co show False by (cases p) simp_all
  qed
  show "\<not> (line_complete B (6, 7, 8) \<and> line_complete B (2, 5, 8) \<and> line_complete B (0, 4, 8))"
  proof
    assume a: "line_complete B (6, 7, 8) \<and> line_complete B (2, 5, 8) \<and> line_complete B (0, 4, 8)"
    then obtain p where p: "c6 = Some p" unfolding B_def line_complete9 by auto
    from a have e: "c7 = Some p" "c8 = Some p" "c2 = Some p" "c5 = Some p" "c0 = Some p" "c4 = Some p"
      unfolding B_def line_complete9 p by auto
    have "7 \<le> count_list B (Some p)" unfolding B_def count9 p e by simp
    with cx co show False by (cases p) simp_all
  qed
qed

lemma at_most_two_complete:
  fixes c0 c1 c2 c3 c4 c5 c6 c7 c8 :: cell
  defines "B \<equiv> [c0, c1, c2, c3, c4, c5, c6, c7, c8]"
  assumes common: "\<forall>l\<in>set WIN_LINES. line_complete B l \<longrightarrow> on_line k l"
    and cx: "count_list B (Some PlayerX) \<le> 5"
    and co: "count_list B (Some PlayerO) \<le> 5"
  shows "length (complete_lines B) \<le> 2"
proof -
  note T = three_lines_through_cell [OF cx [unfolded B_def] co [unfolded B_def], folded B_def]
  have F: "complete_lines B = filter (line_complete B) WIN_LINES"
    by (simp add: complete_lines_def)
  consider "k = 0" | "k = 1" | "k = 2" | "k = 3" | "k = 4" | "k = 5" | "k = 6" | "k = 7" | "k = 8"
    | "k < 0 \<or> 8 < k" by linarith
  then show ?thesis
  proof cases
    case 1
    have n: "\<not> line_complete B (3, 4, 5)" "\<not> line_complete B (6, 7, 8)" "\<not> line_complete B (1, 4, 7)" "\<not> line_complete B (2, 5, 8)" "\<not> line_complete B (2, 4, 6)"
      using common by (simp_all add: WIN_LINES_def on_line_def \<open>k = 0\<close>)
    have f: "complete_lines B = filter (line_complete B) [(0, 1, 2), (0, 3, 6), (0, 4, 8)]"
      unfolding F WIN_LINES_def using n by simp
    show ?thesis unfolding f by (rule filter_three) (rule T(1))
  next
    case 2
    have n: "\<not> line_complete B (3, 4, 5)" "\<not> line_complete B (6, 7, 8)" "\<not> line_complete B (0, 3, 6)" "\<not> line_complete B (2, 5, 8)" "\<not> line_complete B (0, 4, 8)" "\<not> line_complete B (2, 4, 6)"
      using common by (simp_all add: WIN_LINES_def on_line_def \<open>k = 1\<close>)
    have f: "complete_lines B = filter (line_complete B) [(0, 1, 2), (1, 4, 7)]"
      unfolding F WIN_LINES_def using n by simp
    show ?thesis unfolding f by simp
  next
    case 3
    have n: "\<not> line_complete B (3, 4, 5)" "\<not> line_complete B (6, 7, 8)" "\<not> line_complete B (0, 3, 6)" "\<not> line_complete B (1, 4, 7)" "\<not> line_complete B (0, 4, 8)"
      using common by (simp_all add: WIN_LINES_def on_line_def \<open>k = 2\<close>)
    have f: "complete_lines B = filter (line_complete B) [(0, 1, 2), (2, 5, 8), (2, 4, 6)]"
      unfolding F WIN_LINES_def using n by simp
    show ?thesis unfolding f by (rule filter_three) (rule T(2))
  next
    case 4
    have n: "\<not> line_complete B (0, 1, 2)" "\<not> line_complete B (6, 7, 8)" "\<not> line_complete B (1, 4, 7)" "\<not> line_complete B (2, 5, 8)" "\<not> line_complete B (0, 4, 8)" "\<not> line_complete B (2, 4, 6)"
      using common by (simp_all add: WIN_LINES_def on_line_def \<open>k = 3\<close>)
    have f: "complete_lines B = filter (line_complete B) [(3, 4, 5), (0, 3, 6)]"
      unfolding F WIN_LINES_def using n by simp
    show ?thesis unfolding f by simp
  next
    case 5
    have n: "\<not> line_complete B (0, 1, 2)" "\<not> line_complete B (6, 7, 8)" "\<not> line_complete B (0, 3, 6)" "\<not> line_complete B (2, 5, 8)"
      using common by (simp_all add: WIN_LINES_def on_line_def \<open>k = 4\<close>)
    have f: "complete_lines B = filter (line_complete B) [(3, 4, 5), (1, 4, 7), (0, 4, 8), (2, 4, 6)]"
      unfolding F WIN_LINES_def using n by simp
    show ?thesis unfolding f by (rule filter_four) (rule T(3), rule T(4), rule T(5), rule T(6))
  next
    case 6
    have n: "\<not> line_complete B (0, 1, 2)" "\<not> line_complete B (6, 7, 8)" "\<not> line_complete B (0, 3, 6)" "\<not> line_complete B (1, 4, 7)" "\<not> line_complete B (0, 4, 8)" "\<not> line_complete B (2, 4, 6)"
      using common by (simp_all add: WIN_LINES_def on_line_def \<open>k = 5\<close>)
    have f: "complete_lines B = filter (line_complete B) [(3, 4, 5), (2, 5, 8)]"
      unfolding F WIN_LINES_def using n by simp
    show ?thesis unfolding f by simp
  next
    case 7
    have n: "\<not> line_complete B (0, 1, 2)" "\<not> line_complete B (3, 4, 5)" "\<not> line_complete B (1, 4, 7)" "\<not> line_complete B (2, 5, 8)" "\<not> line_complete B (0, 4, 8)"
      using common by (simp_all add: WIN_LINES_def on_line_def \<open>k = 6\<close>)
    have f: "complete_lines B = filter (line_complete B) [(6, 7, 8), (0, 3, 6), (2, 4, 6)]"
      unfolding F WIN_LINES_def using n by simp
    show ?thesis unfolding f by (rule filter_three) (rule T(7))
  next
    case 8
    have n: "\<not> line_complete B (0, 1, 2)" "\<not> line_complete B (3, 4, 5)" "\<not> line_complete B (0, 3, 6)" "\<not> line_complete B (2, 5, 8)" "\<not> line_complete B (0, 4, 8)" "\<not> line_complete B (2, 4, 6)"
      using common by (simp_all add: WIN_LINES_def on_line_def \<open>k = 7\<close>)
    have f: "complete_lines B = filter (line_complete B) [(6, 7, 8), (1, 4, 7)]"
      unfolding F WIN_LINES_def using n by simp
    show ?thesis unfolding f by simp
  next
    case 9
    have n: "\<not> line_complete B (0, 1, 2)" "\<not> line_complete B (3, 4, 5)" "\<not> line_complete B (0, 3, 6)" "\<not> line_complete B (1, 4, 7)" "\<not> line_complete B (2, 4, 6)"
      using common by (simp_all add: WIN_LINES_def on_line_def \<open>k = 8\<close>)
    have f: "complete_lines B = filter (line_complete B) [(6, 7, 8), (2, 5, 8), (0, 4, 8)]"
      unfolding F WIN_LINES_def using n by simp
    show ?thesis unfolding f by (rule filter_three) (rule T(8))
  next
    case 10
    have n: "\<not> line_complete B (0, 1, 2)" "\<not> line_complete B (3, 4, 5)" "\<not> line_complete B (6, 7, 8)" "\<not> line_complete B (0, 3, 6)" "\<not> line_complete B (1, 4, 7)" "\<not> line_complete B (2, 5, 8)" "\<not> line_complete B (0, 4, 8)" "\<not> line_complete B (2, 4, 6)"
    proof -
      from 10 have d: "k \<noteq> 0" "k \<noteq> 1" "k \<noteq> 2" "k \<noteq> 3" "k \<noteq> 4" "k \<noteq> 5" "k \<noteq> 6" "k \<noteq> 7" "k \<noteq> 8"
        by linarith+
      show "\<not> line_complete B (0, 1, 2)" "\<not> line_complete B (3, 4, 5)" "\<not> line_complete B (6, 7, 8)" "\<not> line_complete B (0, 3, 6)" "\<not> line_complete B (1, 4, 7)" "\<not> line_complete B (2, 5, 8)" "\<not> line_complete B (0, 4, 8)" "\<not> line_complete B (2, 4, 6)"
        using common by (simp_all add: WIN_LINES_def on_line_def d)
    qed
    show ?thesis unfolding F WIN_LINES_def using n by simp
  qed
qed


lemma board9:
  "length (b::cell list) = 9 \<Longrightarrow> \<exists>c0 c1 c2 c3 c4 c5 c6 c7 c8. b = [c0, c1, c2, c3, c4, c5, c6, c7, c8]"
  by (auto simp: numeral_eq_Suc length_Suc_conv)

lemma count_list_fill:
  "n < length xs \<Longrightarrow> xs ! n = None \<Longrightarrow>
   count_list (xs[n := Some p]) (Some r) = count_list xs (Some r) + (if p = r then 1 else 0)"
proof (induction xs arbitrary: n)
  case Nil
  then show ?case by simp
next
  case (Cons x xs)
  then show ?case by (cases n) auto
qed

lemma count_marks_le:
  "count_list xs (Some PlayerX) + count_list xs (Some PlayerO) \<le> length xs"
  by (induction xs) auto

lemma click_cases:
  obtains (noop) "handleSquareClick i s = s"
  | (move) "0 \<le> i" and "i < int (length (board s))" and "board s ! nat i = None"
      and "computeStatus (board s) (nextPlayer s) = IN_PROGRESS (nextPlayer s)"
      and "board (handleSquareClick i s) = (board s)[nat i := Some (nextPlayer s)]"
      and "nextPlayer (handleSquareClick i s) = otherPlayer (nextPlayer s)"
proof (cases "at_index (board s) i = Null")
  case False
  then have "handleSquareClick i s = s" by (simp add: handleSquareClick_def)
  then show ?thesis by (rule noop)
next
  case True
  then have r: "0 \<le> i" "i < int (length (board s))" "board s ! nat i = None"
    by (auto simp: at_index_def split: if_splits option.splits)
  show ?thesis
  proof (cases "computeStatus (board s) (nextPlayer s)")
    case (IN_PROGRESS current)
    then have c: "current = nextPlayer s" by (rule computeStatus_IN_PROGRESS)
    show ?thesis
      using r IN_PROGRESS True unfolding c
      by (intro move) (simp_all add: handleSquareClick_def Let_def)
  next
    case (WON w l)
    then have "handleSquareClick i s = s" by (simp add: handleSquareClick_def)
    then show ?thesis by (rule noop)
  next
    case DRAW
    then have "handleSquareClick i s = s" by (simp add: handleSquareClick_def)
    then show ?thesis by (rule noop)
  qed
qed

lemma line_complete_update:
  assumes "l \<in> set WIN_LINES" and "\<not> on_line (int n) l"
  shows "line_complete (b[n := v]) l \<longleftrightarrow> line_complete b l"
proof -
  obtain x y z where l: "l = (x, y, z)" by (cases l) auto
  from assms have "n \<noteq> nat x" "n \<noteq> nat y" "n \<noteq> nat z"
    by (auto simp: l WIN_LINES_def on_line_def)
  then show ?thesis by (simp add: l line_complete_def)
qed

lemma IN_PROGRESS_no_line:
  assumes "length b = 9" and "computeStatus b p = IN_PROGRESS q"
  shows "\<forall>l\<in>set WIN_LINES. \<not> line_complete b l"
proof -
  from assms(2) have "scan_lines b WIN_LINES = None"
    by (auto simp: computeStatus_def split: option.splits dest: scan_lines_WON)
  then show ?thesis
    using scan_lines_None [OF WIN_LINES_in_range [OF assms(1)]] by simp
qed

lemma round_inv_click: "round_inv s \<Longrightarrow> round_inv (handleSquareClick i s)"
proof (cases i s rule: click_cases)
  case noop
  assume "round_inv s"
  then show ?thesis by (simp add: noop)
next
  case move
  assume inv: "round_inv s"
  then have len: "length (board s) = 9" by (simp add: round_inv_def)
  obtain n where n: "i = int n" using move(1) by (metis nonneg_int_cases)
  have nl: "n < length (board s)" and ne: "board s ! n = None"
    using move(2,3) by (simp_all add: n)
  have b': "board (handleSquareClick i s) = (board s)[n := Some (nextPlayer s)]"
    using move(5) by (simp add: n)
  have none: "\<forall>l\<in>set WIN_LINES. \<not> line_complete (board s) l"
    using IN_PROGRESS_no_line [OF len move(4)] .
  have common: "\<forall>l\<in>set WIN_LINES. line_complete (board (handleSquareClick i s)) l \<longrightarrow> on_line i l"
  proof (intro ballI impI)
    fix l assume l: "l \<in> set WIN_LINES" and c: "line_complete (board (handleSquareClick i s)) l"
    show "on_line i l"
    proof (rule ccontr)
      assume "\<not> on_line i l"
      then have o: "\<not> on_line (int n) l" by (simp add: n)
      from c have "line_complete ((board s)[n := Some (nextPlayer s)]) l" by (simp add: b')
      then have "line_complete (board s) l"
        by (simp add: line_complete_update [OF l o])
      with none l show False by blast
    qed
  qed
  have cnt: "count_list (board s) (Some (otherPlayer (nextPlayer s))) = count_list (board s) (Some (nextPlayer s)) \<or>
      count_list (board s) (Some (otherPlayer (nextPlayer s))) = count_list (board s) (Some (nextPlayer s)) + 1"
    using inv by (simp add: round_inv_def)
  have cnt': "count_list (board (handleSquareClick i s)) (Some (otherPlayer (nextPlayer (handleSquareClick i s)))) =
        count_list (board (handleSquareClick i s)) (Some (nextPlayer (handleSquareClick i s))) \<or>
      count_list (board (handleSquareClick i s)) (Some (otherPlayer (nextPlayer (handleSquareClick i s)))) =
        count_list (board (handleSquareClick i s)) (Some (nextPlayer (handleSquareClick i s))) + 1"
    using cnt unfolding b' move(6) count_list_fill [OF nl ne]
    by (cases "nextPlayer s") auto
  show ?thesis
    unfolding round_inv_def using len common cnt' by (auto simp: b')
qed

lemma round_inv_play: "round_inv s \<Longrightarrow> round_inv (play s moves)"
proof (induction moves arbitrary: s)
  case Nil
  then show ?case by (simp add: play_def)
next
  case (Cons m moves)
  have "play s (m # moves) = play (handleSquareClick m s) moves" by (simp add: play_def)
  with Cons.IH [OF round_inv_click [OF Cons.prems]] show ?case by simp
qed

lemma round_inv_start:
  "round_inv \<lparr>board = replicate 9 None, nextPlayer = first, score = sc\<rparr>"
  by (simp add: round_inv_def empty9 WIN_LINES_def line_complete_def)

lemma round_inv_counts:
  assumes "round_inv s"
  shows "count_list (board s) (Some PlayerX) \<le> 5" and "count_list (board s) (Some PlayerO) \<le> 5"
proof -
  from assms have len: "length (board s) = 9"
    and cnt: "count_list (board s) (Some (otherPlayer (nextPlayer s))) = count_list (board s) (Some (nextPlayer s)) \<or>
      count_list (board s) (Some (otherPlayer (nextPlayer s))) = count_list (board s) (Some (nextPlayer s)) + 1"
    by (simp_all add: round_inv_def)
  have le: "count_list (board s) (Some PlayerX) + count_list (board s) (Some PlayerO) \<le> 9"
    using count_marks_le [of "board s"] len by simp
  show "count_list (board s) (Some PlayerX) \<le> 5"
    using cnt le by (cases "nextPlayer s") auto
  show "count_list (board s) (Some PlayerO) \<le> 5"
    using cnt le by (cases "nextPlayer s") auto
qed

lemma round_inv_two_lines:
  assumes "round_inv s"
  shows "length (complete_lines (board s)) \<le> 2"
proof -
  from assms have len: "length (board s) = 9" by (simp add: round_inv_def)
  from assms obtain i where common: "\<forall>l\<in>set WIN_LINES. line_complete (board s) l \<longrightarrow> on_line i l"
    by (auto simp: round_inv_def)
  from board9 [OF len] obtain c0 c1 c2 c3 c4 c5 c6 c7 c8
    where b: "board s = [c0, c1, c2, c3, c4, c5, c6, c7, c8]" by blast
  show ?thesis
    using at_most_two_complete [of c0 c1 c2 c3 c4 c5 c6 c7 c8 i] common round_inv_counts [OF assms]
    unfolding b by blast
qed

lemma line_mark_at:
  assumes "l \<in> set WIN_LINES" and "line_complete b l" and "on_line i l"
  shows "b ! nat (fst l) = b ! nat i"
  using assms by (auto simp: WIN_LINES_def on_line_def line_complete_def simp del: not_None_eq)

lemma round_inv_same_mark:
  assumes "round_inv s"
  shows "\<forall>l\<in>set (complete_lines (board s)). \<forall>l'\<in>set (complete_lines (board s)).
           board s ! nat (fst l) = board s ! nat (fst l')"
proof (intro ballI)
  fix l l' assume "l \<in> set (complete_lines (board s))" and "l' \<in> set (complete_lines (board s))"
  then have l: "l \<in> set WIN_LINES" "line_complete (board s) l"
    and l': "l' \<in> set WIN_LINES" "line_complete (board s) l'"
    by (simp_all add: complete_lines_def)
  from assms obtain i where common: "\<forall>l\<in>set WIN_LINES. line_complete (board s) l \<longrightarrow> on_line i l"
    by (auto simp: round_inv_def)
  have "on_line i l" "on_line i l'" using common l l' by blast+
  then show "board s ! nat (fst l) = board s ! nat (fst l')"
    using line_mark_at [OF l] line_mark_at [OF l'] by simp
qed

text \<open>
  C7, as stated, fails: the clicks 1, 4, 2, 5, 3, 7, 6, 8, 0 from the initial state are
  all valid moves, and the last one completes the top row and the left column at once.
\<close>

theorem two_lines_reachable:
  "complete_lines (board (play initial_game two_lines_moves)) = [(0, 1, 2), (0, 3, 6)] \<and>
   \<not> length (complete_lines (board (play initial_game two_lines_moves))) \<le> 1"
  by (simp add: play_def two_lines_moves_def initial_game_def empty9 click_eval
      computeStatus_def WIN_LINES_def at_index_def add_win_def complete_lines_def line_complete_def)

text \<open>
  C7, amended. In every state reached from an empty board by any sequence of clicks, at
  most two of the eight winning lines are complete, and all complete lines carry the same
  mark.
\<close>

theorem reachable_complete_lines:
  "length (complete_lines (board (play \<lparr>board = replicate 9 None, nextPlayer = first, score = sc\<rparr> moves))) \<le> 2 \<and>
   (\<forall>l\<in>set (complete_lines (board (play \<lparr>board = replicate 9 None, nextPlayer = first, score = sc\<rparr> moves))).
    \<forall>l'\<in>set (complete_lines (board (play \<lparr>board = replicate 9 None, nextPlayer = first, score = sc\<rparr> moves))).
      board (play \<lparr>board = replicate 9 None, nextPlayer = first, score = sc\<rparr> moves) ! nat (fst l) =
      board (play \<lparr>board = replicate 9 None, nextPlayer = first, score = sc\<rparr> moves) ! nat (fst l'))"
  using round_inv_two_lines [OF round_inv_play [OF round_inv_start]]
    round_inv_same_mark [OF round_inv_play [OF round_inv_start]]
  by blast

theorem reachable_complete_lines_witness:
  "length (complete_lines (board (play initial_game two_lines_moves))) \<le> 2 \<and>
   board (play initial_game two_lines_moves) ! nat (fst ((0, 1, 2)::line)) =
   board (play initial_game two_lines_moves) ! nat (fst ((0, 3, 6)::line))"
proof -
  have c: "complete_lines (board (play initial_game two_lines_moves)) = [(0, 1, 2), (0, 3, 6)]"
    by (simp add: play_def two_lines_moves_def initial_game_def empty9 click_eval
      computeStatus_def WIN_LINES_def at_index_def add_win_def complete_lines_def line_complete_def)
  have i: "initial_game = \<lparr>board = replicate 9 None, nextPlayer = PlayerX, score = \<lparr>X_wins = 0, O_wins = 0\<rparr>\<rparr>"
    by (simp add: initial_game_def)
  note R = reachable_complete_lines [of PlayerX "\<lparr>X_wins = 0, O_wins = 0\<rparr>" two_lines_moves, folded i]
  from R have "length (complete_lines (board (play initial_game two_lines_moves))) \<le> 2" by blast
  moreover from R have "board (play initial_game two_lines_moves) ! nat (fst ((0, 1, 2)::line)) =
      board (play initial_game two_lines_moves) ! nat (fst ((0, 3, 6)::line))"
    unfolding c by simp
  ultimately show ?thesis by blast
qed

end
